theory Spec2Isabelle
  imports Main
begin

section \<open>Strings of the Python runtime\<close>

text \<open>
  The generator works on Python \<open>str\<close> values. They are modelled as \<open>string\<close>, one
  \<open>char\<close> per code point, restricted to the code points below 256. The operations
  below are the ones \<open>test_pattern\<close> in \<open>generate.py\<close> calls on strings:
  \<open>html.escape\<close>, \<open>str.strip\<close>, \<open>str.split('\n')\<close>, slicing, \<open>', '.join\<close>, the
  decimal rendering of an integer inside an f-string, and \<open>str\<close> of a list.
\<close>

definition escape_char :: "char \<Rightarrow> string" where
  \<comment> \<open>\<open>html.escape(s, quote=True)\<close>: the five replacements, seen character by character.\<close>
  \<open>escape_char c =
     (if c = CHR ''&'' then ''&amp;''
      else if c = CHR ''<'' then ''&lt;''
      else if c = CHR ''>'' then ''&gt;''
      else if c = CHR ''"'' then ''&quot;''
      else if c = CHR 0x27 then ''&#x27;''
      else [c])\<close>

definition html_escape :: "string \<Rightarrow> string" where
  "html_escape s = concat (map escape_char s)"

definition py_isspace :: "char \<Rightarrow> bool" where
  \<comment> \<open>The code points below 256 that \<open>str.strip()\<close> removes: TAB, LF, VT, FF, CR,
      FS, GS, RS, US, SPACE, NEL and NBSP.\<close>
  "py_isspace c = ((of_char c :: nat) \<in> set [9, 10, 11, 12, 13, 28, 29, 30, 31, 32, 133, 160])"

definition py_lstrip :: "string \<Rightarrow> string" where
  "py_lstrip s = dropWhile py_isspace s"

definition py_rstrip :: "string \<Rightarrow> string" where
  "py_rstrip s = rev (dropWhile py_isspace (rev s))"

definition py_strip :: "string \<Rightarrow> string" where
  \<comment> \<open>\<open>s.strip()\<close> removes whitespace at both ends.\<close>
  "py_strip s = py_rstrip (py_lstrip s)"

fun split_nl :: "string \<Rightarrow> string list" where
  \<comment> \<open>\<open>s.split('\n')\<close>: always at least one piece; empty pieces are kept.\<close>
  "split_nl [] = [[]]"
| "split_nl (c # cs) =
     (if c = CHR 0x0A then [] # split_nl cs
      else (case split_nl cs of [] \<Rightarrow> [[c]] | l # ls \<Rightarrow> (c # l) # ls))"

definition slice :: "string \<Rightarrow> nat \<Rightarrow> nat \<Rightarrow> string" where
  \<comment> \<open>\<open>s[a:b]\<close> for non-negative bounds: clamped to the string, empty when \<open>b \<le> a\<close>.\<close>
  "slice s a b = take (b - a) (drop a s)"

fun py_join :: "string \<Rightarrow> string list \<Rightarrow> string" where
  "py_join sep [] = []"
| "py_join sep [x] = x"
| "py_join sep (x # y # ys) = x @ sep @ py_join sep (y # ys)"

definition digit_char :: "nat \<Rightarrow> char" where
  "digit_char d = char_of (48 + d)"

function str_nat :: "nat \<Rightarrow> string" where
  \<comment> \<open>\<open>str(n)\<close> of a non-negative integer.\<close>
  "str_nat n = (if n < 10 then [digit_char n] else str_nat (n div 10) @ [digit_char (n mod 10)])"
  by pat_completeness auto
termination
  by (relation "measure id") auto

definition enumerate1 :: "'a list \<Rightarrow> (nat \<times> 'a) list" where
  \<comment> \<open>\<open>enumerate(xs, 1)\<close>\<close>
  "enumerate1 xs = zip [1 ..< Suc (length xs)] xs"

subsection \<open>\<open>repr\<close> of strings, tuples and lists\<close>

definition hex_digit :: "nat \<Rightarrow> char" where
  "hex_digit d = (if d < 10 then char_of (48 + d) else char_of (87 + d))"

definition py_printable :: "char \<Rightarrow> bool" where
  \<comment> \<open>\<open>str.isprintable\<close> on the code points below 256.\<close>
  "py_printable c =
     (let n = (of_char c :: nat)
      in (32 \<le> n \<and> n < 127) \<or> (161 \<le> n \<and> n \<noteq> 173))"

definition repr_char :: "char \<Rightarrow> char \<Rightarrow> string" where
  \<open>repr_char q c =
     (if c = q \<or> c = CHR 0x5C then [CHR 0x5C, c]
      else if c = CHR 0x09 then [CHR 0x5C, CHR ''t'']
      else if c = CHR 0x0A then [CHR 0x5C, CHR ''n'']
      else if c = CHR 0x0D then [CHR 0x5C, CHR ''r'']
      else if py_printable c then [c]
      else [CHR 0x5C, CHR ''x'', hex_digit (of_char c div 16), hex_digit (of_char c mod 16)])\<close>

definition repr_quote :: "string \<Rightarrow> char" where
  \<comment> \<open>Single quotes, unless the string has a single quote and no double quote.\<close>
  \<open>repr_quote s = (if CHR 0x27 \<in> set s \<and> CHR ''"'' \<notin> set s then CHR ''"'' else CHR 0x27)\<close>

definition repr_str :: "string \<Rightarrow> string" where
  "repr_str s = (let q = repr_quote s in [q] @ concat (map (repr_char q) s) @ [q])"

datatype fa_item = Plain string | Groups "string list"

fun repr_item :: "fa_item \<Rightarrow> string" where
  "repr_item (Plain s) = repr_str s"
| "repr_item (Groups [g]) = ''('' @ repr_str g @ '',)''"
| "repr_item (Groups gs) = ''('' @ py_join '', '' (map repr_str gs) @ '')''"

definition str_list :: "fa_item list \<Rightarrow> string" where
  \<comment> \<open>\<open>str(all_matches)\<close>\<close>
  "str_list xs = ''['' @ py_join '', '' (map repr_item xs) @ '']''"

section \<open>The regular-expression library\<close>

text \<open>
  \<open>generate.py\<close> imports Python's \<open>re\<close> module and calls \<open>re.compile\<close>,
  \<open>Pattern.finditer\<close>, \<open>Pattern.findall\<close>, \<open>Match.span\<close>, \<open>Match.group(0)\<close>,
  \<open>Match.groups\<close> and \<open>Match.groupdict\<close>. The module is not part of the repository.
  \<open>test_pattern\<close> is therefore modelled over an interface \<open>re_api\<close> whose three
  operations may raise; a second layer models what the library's scanner does with a
  compiled pattern, for the claims that are about the library's results.
\<close>

datatype exn =
    ReError string          \<comment> \<open>\<open>re.error\<close>, with \<open>str(e)\<close>\<close>
  | OtherException string   \<comment> \<open>any other \<open>Exception\<close>, with \<open>str(e)\<close>\<close>

record match =
  m_start :: nat                                    \<comment> \<open>\<open>m.span()[0]\<close>\<close>
  m_end :: nat                                      \<comment> \<open>\<open>m.span()[1]\<close>\<close>
  m_groups :: "string option list"                  \<comment> \<open>\<open>m.groups()\<close>\<close>
  m_groupdict :: "(string \<times> string option) list"    \<comment> \<open>\<open>m.groupdict()\<close>, in insertion order\<close>

record 'p re_api =
  re_compile :: "string \<Rightarrow> exn + 'p"
  finditer :: "'p \<Rightarrow> string \<Rightarrow> exn + match list"
  findall :: "'p \<Rightarrow> string \<Rightarrow> exn + fa_item list"

definition group0 :: "string \<Rightarrow> match \<Rightarrow> string" where
  \<comment> \<open>\<open>m.group(0)\<close>: the substring of the scanned string that the span covers.\<close>
  "group0 s m = slice s (m_start m) (m_end m)"

subsection \<open>The scanner behind \<open>finditer\<close> and \<open>findall\<close>\<close>

text \<open>
  Modelled from the spec: the matching capability is absent from the sources. The spec
  has \<open>scanLine\<close> find all non-overlapping matches left to right, each scan resuming at
  the previous match's end offset, a zero-length match still forcing progress. A
  compiled pattern is taken as the function that lists, for a string and an anchor
  position, the matches starting there in the engine's order of preference, each as
  its length, its group values and its named groups. After an empty match the scanner
  resumes at the same offset and refuses an empty match there (\<open>must_advance\<close>), which
  is how the scanner of the \<open>re\<close> library makes progress.
\<close>

type_synonym candidate = "nat \<times> string option list \<times> (string \<times> string option) list"

type_synonym matcher = "string \<Rightarrow> nat \<Rightarrow> candidate list"

definition mk_match :: "nat \<Rightarrow> candidate \<Rightarrow> match" where
  "mk_match i c =
     \<lparr>m_start = i, m_end = i + fst c, m_groups = fst (snd c), m_groupdict = snd (snd c)\<rparr>"

fun re_search_from :: "matcher \<Rightarrow> string \<Rightarrow> bool \<Rightarrow> nat \<Rightarrow> nat \<Rightarrow> match option" where
  \<comment> \<open>Try the anchors \<open>i, i + 1, ...\<close>, \<open>n\<close> of them; an empty match at the first
      anchor is refused when \<open>must_advance\<close> is set.\<close>
  "re_search_from rx s must_advance i 0 = None"
| "re_search_from rx s must_advance i (Suc n) =
     (case find (\<lambda>c. \<not> (must_advance \<and> fst c = 0)) (rx s i) of
        Some c \<Rightarrow> Some (mk_match i c)
      | None \<Rightarrow> re_search_from rx s False (Suc i) n)"

definition re_search :: "matcher \<Rightarrow> string \<Rightarrow> nat \<Rightarrow> bool \<Rightarrow> match option" where
  \<comment> \<open>The anchors are \<open>pos, ..., len(s)\<close>.\<close>
  "re_search rx s pos must_advance = re_search_from rx s must_advance pos (Suc (length s) - pos)"

function scanner :: "matcher \<Rightarrow> string \<Rightarrow> nat \<Rightarrow> bool \<Rightarrow> match list" where
  \<comment> \<open>Modelled from the spec: \<open>scanLine\<close> and \<open>scanAll\<close> of the Matcher, whose code is
      the \<open>re\<close> library and not in the sources. Each search resumes at the end offset of
      the match before it; after an empty match the next match must advance.\<close>
  "scanner rx s pos must_advance =
     (case re_search rx s pos must_advance of
        None \<Rightarrow> []
      | Some m \<Rightarrow> m # scanner rx s (m_end m) (m_end m = m_start m))"
  by pat_completeness auto
termination
proof (relation "measure (\<lambda>(rx, s, pos, adv). 2 * (Suc (length s) - pos) + (if adv then 0 else 1))")
  show "wf (measure (\<lambda>(rx, s, pos, adv). 2 * (Suc (length s) - pos) + (if adv then 0 else 1)))"
    by simp
next
  fix rx :: matcher and s :: string and pos :: nat and adv :: bool and m :: match
  assume found: "re_search rx s pos adv = Some m"
  have aux: "re_search_from rx s a i n = Some m \<Longrightarrow>
      i \<le> m_start m \<and> m_start m < i + n \<and> m_start m \<le> m_end m \<and>
      (a \<and> m_start m = i \<longrightarrow> m_start m < m_end m)" for a i n
  proof (induction n arbitrary: a i)
    case 0
    then show ?case by simp
  next
    case (Suc n)
    show ?case
    proof (cases "find (\<lambda>c. \<not> (a \<and> fst c = 0)) (rx s i)")
      case None
      with Suc.prems have "re_search_from rx s False (Suc i) n = Some m" by simp
      from Suc.IH [OF this] show ?thesis by auto
    next
      case (Some c)
      with Suc.prems have m: "m = mk_match i c" by simp
      from Some have "\<not> (a \<and> fst c = 0)" by (auto simp: find_Some_iff)
      with m show ?thesis by (auto simp: mk_match_def)
    qed
  qed
  from aux [of adv pos "Suc (length s) - pos"] found
  have "pos \<le> m_start m" "m_start m < pos + (Suc (length s) - pos)" "m_start m \<le> m_end m"
    "adv \<and> m_start m = pos \<longrightarrow> m_start m < m_end m"
    by (auto simp: re_search_def)
  then show "((rx, s, m_end m, m_end m = m_start m), (rx, s, pos, adv))
      \<in> measure (\<lambda>(rx, s, pos, adv). 2 * (Suc (length s) - pos) + (if adv then 0 else 1))"
    by (cases adv) auto
qed

definition re_finditer :: "matcher \<Rightarrow> string \<Rightarrow> match list" where
  \<comment> \<open>Modelled from the spec: \<open>scanLine\<close>, that is \<open>list(p.finditer(s))\<close>, is the scan
      of the whole string from offset 0.\<close>
  "re_finditer rx s = scanner rx s 0 False"

definition absent_as_empty :: "string option \<Rightarrow> string" where
  "absent_as_empty g = (case g of None \<Rightarrow> [] | Some v \<Rightarrow> v)"

definition findall_item :: "string \<Rightarrow> match \<Rightarrow> fa_item" where
  \<comment> \<open>What \<open>Pattern.findall\<close> keeps of one match, as the documentation of the \<open>re\<close>
      library has it: the whole match when the pattern has no group, the string of the
      group when it has exactly one, the tuple of all group strings when it has several;
      a group that took no part gives the empty string.\<close>
  "findall_item s m =
     (case m_groups m of
        [] \<Rightarrow> Plain (group0 s m)
      | [g] \<Rightarrow> Plain (absent_as_empty g)
      | gs \<Rightarrow> Groups (map absent_as_empty gs))"

definition re_findall :: "matcher \<Rightarrow> string \<Rightarrow> fa_item list" where
  \<comment> \<open>\<open>p.findall(s)\<close>: one item for each match of the same scan.\<close>
  "re_findall rx s = map (findall_item s) (scanner rx s 0 False)"

definition py_re :: "(string \<Rightarrow> exn + matcher) \<Rightarrow> matcher re_api" where
  \<comment> \<open>The library over a given compiler of pattern sources.\<close>
  "py_re compile =
     \<lparr>re_compile = compile,
      finditer = (\<lambda>rx s. Inr (re_finditer rx s)),
      findall = (\<lambda>rx s. Inr (re_findall rx s))\<rparr>"

text \<open>Compiled forms of three pattern shapes, used at concrete inputs.\<close>

definition literal :: "string \<Rightarrow> matcher" where
  \<comment> \<open>a pattern without metacharacters, such as \<open>a\<close>\<close>
  "literal lit s i = (if slice s i (i + length lit) = lit then [(length lit, [], [])] else [])"

definition group_literal :: "string \<Rightarrow> matcher" where
  \<comment> \<open>one capturing group around a literal, such as \<open>(a)\<close>\<close>
  "group_literal lit s i =
     (if slice s i (i + length lit) = lit then [(length lit, [Some lit], [])] else [])"

definition group_or_literal :: "string \<Rightarrow> string \<Rightarrow> matcher" where
  \<comment> \<open>an alternation whose first branch is a group, such as \<open>(a)|b\<close>\<close>
  "group_or_literal a b s i =
     (if slice s i (i + length a) = a then [(length a, [Some a], [])] else []) @
     (if slice s i (i + length b) = b then [(length b, [None], [])] else [])"

section \<open>\<open>RegexLearningGenerator.test_pattern\<close>\<close>

definition span_open :: string where
  \<open>span_open = ''<span style="background-color: #a5d6a7; font-weight: bold; border-radius: 3px; padding: 0 2px;">''\<close>

definition span_close :: string where
  "span_close = ''</span>''"

fun highlight_loop :: "string \<Rightarrow> match list \<Rightarrow> string \<Rightarrow> nat \<Rightarrow> string \<times> nat" where
  \<comment> \<open>\<open>for m in matches\<close> of lines 62 to 68, on \<open>(highlighted_line, last_idx)\<close>\<close>
  "highlight_loop line [] hl last_idx = (hl, last_idx)"
| "highlight_loop line (m # ms) hl last_idx =
     (let s = m_start m; e = m_end m;
          hl1 = hl @ html_escape (slice line last_idx s);
          hl2 = hl1 @ span_open @ html_escape (slice line s e) @ span_close
      in highlight_loop line ms hl2 e)"

definition highlighted_line :: "string \<Rightarrow> match list \<Rightarrow> string" where
  "highlighted_line line ms =
     (case highlight_loop line ms [] 0 of
        (hl, last_idx) \<Rightarrow> hl @ html_escape (drop last_idx line))"

definition group_value :: "string option \<Rightarrow> string" where
  \<comment> \<open>\<open>val = group if group is not None else "None"\<close>\<close>
  "group_value g = (case g of Some v \<Rightarrow> v | None \<Rightarrow> ''None'')"

definition group_item :: "nat \<times> string option \<Rightarrow> string" where
  \<open>group_item jg = (case jg of (j, grp) \<Rightarrow>
     str_nat j @ '': "'' @ html_escape (group_value grp) @ ''"'')\<close>

definition named_item :: "string \<times> string option \<Rightarrow> string" where
  \<open>named_item nv = (case nv of (name, v) \<Rightarrow>
     name @ '': "'' @ html_escape (group_value v) @ ''"'')\<close>

definition match_detail :: "string \<Rightarrow> nat \<times> match \<Rightarrow> string" where
  \<comment> \<open>the body of \<open>for k, match in enumerate(matches, 1)\<close>, lines 79 to 100\<close>
  \<open>match_detail line km = (case km of (k, m) \<Rightarrow>
     ''<div style="margin-top: 4px; margin-left: 10px; font-size: 0.9em; border-left: 2px solid #888; padding-left: 8px;">'' @
     ''<strong>Match '' @ str_nat k @ '':</strong> "'' @ html_escape (group0 line m) @ ''"'' @
     (if m_groups m \<noteq> []
      then ''<br><strong>Groups:</strong> '' @ py_join '', '' (map group_item (enumerate1 (m_groups m)))
      else []) @
     (if m_groupdict m \<noteq> []
      then ''<br><strong>Named:</strong> '' @ py_join '', '' (map named_item (m_groupdict m))
      else []) @
     ''</div>'')\<close>

definition line_block :: "nat \<Rightarrow> string \<Rightarrow> match list \<Rightarrow> string" where
  \<comment> \<open>what one line adds to \<open>results_html\<close>, lines 57 to 106\<close>
  \<open>line_block i line ms =
     (if ms \<noteq> []
      then ''<div class="match-result">'' @
           ''<strong>Line '' @ str_nat i @ '':</strong> "'' @ highlighted_line line ms @ ''"<br>'' @
           concat (map (match_detail line) (enumerate1 ms)) @
           ''</div>''
      else ''<div class="no-match">'' @
           ''<strong>Line '' @ str_nat i @ '':</strong> "'' @ html_escape line @ ''" - No match'' @
           ''</div>'')\<close>

fun scan_lines :: "'p re_api \<Rightarrow> 'p \<Rightarrow> nat \<Rightarrow> string list \<Rightarrow> string \<Rightarrow> exn + string" where
  \<comment> \<open>\<open>for i, line in enumerate(test_lines, 1)\<close>; an exception of \<open>finditer\<close> leaves the loop\<close>
  "scan_lines re p i [] results_html = Inr results_html"
| "scan_lines re p i (line # rest) results_html =
     (case finditer re p line of
        Inl e \<Rightarrow> Inl e
      | Inr ms \<Rightarrow> scan_lines re p (Suc i) rest (results_html @ line_block i line ms))"

definition aggregate_block :: "fa_item list \<Rightarrow> string" where
  \<comment> \<open>lines 110 to 116\<close>
  \<open>aggregate_block all_matches =
     (if all_matches \<noteq> []
      then ''<div class="group-info">'' @
           ''<strong>All matches found:</strong> '' @ str_nat (length all_matches) @ ''<br>'' @
           ''Matches: '' @ html_escape (take 200 (str_list all_matches)) @
           (if length (str_list all_matches) > 200 then ''...'' else []) @
           ''</div>''
      else [])\<close>

definition test_lines :: "string \<Rightarrow> string list" where
  \<comment> \<open>\<open>test_input.strip().split('\n')\<close>\<close>
  "test_lines test_input = split_nl (py_strip test_input)"

definition try_body :: "'p re_api \<Rightarrow> string \<Rightarrow> string \<Rightarrow> exn + string" where
  \<comment> \<open>the \<open>try\<close> block, lines 46 to 116: \<open>Inl\<close> is the exception that leaves it\<close>
  "try_body re pattern test_input =
     (case re_compile re pattern of
        Inl e \<Rightarrow> Inl e
      | Inr compiled_pattern \<Rightarrow>
          (case scan_lines re compiled_pattern 1 (test_lines test_input) [] of
             Inl e \<Rightarrow> Inl e
           | Inr results_html \<Rightarrow>
               (case findall re compiled_pattern test_input of
                  Inl e \<Rightarrow> Inl e
                | Inr all_matches \<Rightarrow> Inr (results_html @ aggregate_block all_matches))))"

definition regex_error_block :: "string \<Rightarrow> string" where
  \<open>regex_error_block msg =
     ''<div class="no-match"><strong>Regex Error:</strong> '' @ html_escape msg @ ''</div>''\<close>

definition error_block :: "string \<Rightarrow> string" where
  \<open>error_block msg =
     ''<div class="no-match"><strong>Error:</strong> '' @ html_escape msg @ ''</div>''\<close>

definition results_html :: "'p re_api \<Rightarrow> string \<Rightarrow> string \<Rightarrow> string" where
  \<comment> \<open>the \<open>try\<close> statement with its two handlers, lines 45 to 121\<close>
  "results_html re pattern test_input =
     (case try_body re pattern test_input of
        Inr html \<Rightarrow> html
      | Inl (ReError msg) \<Rightarrow> regex_error_block msg
      | Inl (OtherException msg) \<Rightarrow> error_block msg)"

definition test_pattern :: "'p re_api \<Rightarrow> string \<Rightarrow> string \<Rightarrow> string \<times> string \<times> string" where
  \<comment> \<open>on the contents of the pattern file and of \<open>test_input.txt\<close>\<close>
  "test_pattern re pattern_file test_input_file =
     (let pattern = py_strip pattern_file;
          test_input = test_input_file
      in (pattern, test_input, results_html re pattern test_input))"

section \<open>Notions the claims are stated with\<close>

fun spans_chain :: "nat \<Rightarrow> match list \<Rightarrow> bool" where
  \<comment> \<open>The spans are in order and do not overlap: each starts at or after the end of
      the one before (\<open>last_idx\<close> for the first) and ends at or after its own start.\<close>
  "spans_chain last_idx [] = True"
| "spans_chain last_idx (m # ms) =
     (last_idx \<le> m_start m \<and> m_start m \<le> m_end m \<and> spans_chain (m_end m) ms)"

function strip_markers :: "string \<Rightarrow> string" where
  \<comment> \<open>Removes every highlight marker, opening and closing, from a rendered line.\<close>
  "strip_markers [] = []"
| "strip_markers (c # cs) =
     (if take (length span_open) (c # cs) = span_open
      then strip_markers (drop (length span_open) (c # cs))
      else if take (length span_close) (c # cs) = span_close
      then strip_markers (drop (length span_close) (c # cs))
      else c # strip_markers cs)"
  by pat_completeness auto
termination
  by (relation "measure length") (auto simp: span_open_def span_close_def)

definition markup_chars :: "char set" where
  \<comment> \<open>the five characters that \<open>html.escape\<close> replaces\<close>
  \<open>markup_chars = {CHR ''&'', CHR ''<'', CHR ''>'', CHR ''"'', CHR 0x27}\<close>

definition raising_api :: "matcher re_api" where
  \<comment> \<open>An instance of the interface in which each operation raises on some input:
      compilation on the pattern \<open>(\<close> with \<open>re.error\<close> and on the pattern
      \<open>a{1,99999999999}\<close> with \<open>OverflowError\<close>, as \<open>re.compile\<close> does; the line scan
      on the line \<open>boom\<close>, the find-all pass on the text \<open>bang\<close>.\<close>
  "raising_api =
     \<lparr>re_compile = (\<lambda>p. if p = ''('' then Inl (ReError ''missing ), unterminated subpattern at position 0'')
                            else if p = ''a{1,99999999999}''
                            then Inl (OtherException ''the repetition number is too large'')
                            else Inr (literal p)),
      finditer = (\<lambda>rx s. if s = ''boom'' then Inl (OtherException ''scan failed'')
                           else Inr (re_finditer rx s)),
      findall = (\<lambda>rx s. if s = ''bang'' then Inl (OtherException ''findall failed'')
                          else Inr (re_findall rx s))\<rparr>"

section \<open>Escaping and highlight markers\<close>

lemma char_of_digits: "char_of (49::nat) = CHR ''1''" "char_of (50::nat) = CHR ''2''"
  by code_simp+

lemma escape_char_no_lt: "CHR ''<'' \<notin> set (escape_char c)"
  by (simp add: escape_char_def)

lemma html_escape_no_lt: "CHR ''<'' \<notin> set (html_escape s)"
  by (induction s) (simp_all add: html_escape_def escape_char_no_lt)

lemma html_escape_append: "html_escape (a @ b) = html_escape a @ html_escape b"
  by (simp add: html_escape_def)

lemma span_open_Cons: "\<exists>t. span_open = CHR ''<'' # t"
  by (simp add: span_open_def)

lemma span_close_Cons: "\<exists>t. span_close = CHR ''<'' # t"
  by (simp add: span_close_def)

lemma strip_markers_plain:
  "CHR ''<'' \<notin> set a \<Longrightarrow> strip_markers (a @ r) = a @ strip_markers r"
proof (induction a)
  case Nil
  then show ?case by simp
next
  case (Cons c a)
  obtain t u where t: "span_open = CHR ''<'' # t" and u: "span_close = CHR ''<'' # u"
    using span_open_Cons span_close_Cons by blast
  from Cons.prems have c: "c \<noteq> CHR ''<''" by auto
  have "take (length span_open) (c # a @ r) \<noteq> span_open"
    using c by (simp add: t)
  moreover have "take (length span_close) (c # a @ r) \<noteq> span_close"
    using c by (simp add: u)
  ultimately show ?case using Cons by simp
qed

lemma strip_markers_open: "strip_markers (span_open @ r) = strip_markers r"
proof -
  obtain t where t: "span_open = CHR ''<'' # t" using span_open_Cons by blast
  have "strip_markers (CHR ''<'' # (t @ r)) =
      strip_markers (drop (length span_open) (CHR ''<'' # (t @ r)))"
    by (subst strip_markers.simps(2)) (simp add: t)
  then show ?thesis by (simp add: t)
qed

lemma close_not_open: "take (length span_open) (span_close @ r) \<noteq> span_open"
  by (simp add: span_open_def span_close_def)

lemma strip_markers_close: "strip_markers (span_close @ r) = strip_markers r"
proof -
  obtain u where u: "span_close = CHR ''<'' # u" using span_close_Cons by blast
  have "take (length span_open) (CHR ''<'' # (u @ r)) \<noteq> span_open"
    using close_not_open [of r] by (simp add: u)
  then have "strip_markers (CHR ''<'' # (u @ r)) =
      strip_markers (drop (length span_close) (CHR ''<'' # (u @ r)))"
    by (subst strip_markers.simps(2)) (simp add: u)
  then show ?thesis by (simp add: u)
qed

lemma slice_drop: "a \<le> b \<Longrightarrow> slice s a b @ drop b s = drop a s"
proof -
  assume "a \<le> b"
  then have "drop b s = drop (b - a) (drop a s)" by simp
  then show ?thesis unfolding slice_def by (metis append_take_drop_id)
qed

lemma highlight_loop_acc:
  "highlight_loop line ms hl last_idx =
     (hl @ fst (highlight_loop line ms [] last_idx), snd (highlight_loop line ms [] last_idx))"
proof (induction ms arbitrary: hl last_idx)
  case Nil
  then show ?case by simp
next
  case (Cons m ms)
  show ?case
    by (simp add: Let_def Cons.IH [of "hl @ _"] Cons.IH [of "html_escape _ @ _"])
qed

lemma strip_highlight_loop:
  "spans_chain last_idx ms \<Longrightarrow>
   strip_markers (fst (highlight_loop line ms [] last_idx) @
                  html_escape (drop (snd (highlight_loop line ms [] last_idx)) line))
     = html_escape (drop last_idx line)"
proof (induction ms arbitrary: last_idx)
  case Nil
  then show ?case using strip_markers_plain [OF html_escape_no_lt, of _ "[]"] by simp
next
  case (Cons m ms)
  let ?s = "m_start m" and ?e = "m_end m"
  let ?rest = "fst (highlight_loop line ms [] ?e) @
      html_escape (drop (snd (highlight_loop line ms [] ?e)) line)"
  from Cons.prems have le: "last_idx \<le> ?s" "?s \<le> ?e" and ch: "spans_chain ?e ms"
    by simp_all
  have loop: "highlight_loop line (m # ms) [] last_idx =
      (html_escape (slice line last_idx ?s) @ span_open @ html_escape (slice line ?s ?e) @
         span_close @ fst (highlight_loop line ms [] ?e), snd (highlight_loop line ms [] ?e))"
    by (simp add: Let_def highlight_loop_acc [of line ms "html_escape _ @ _"])
  have "strip_markers (fst (highlight_loop line (m # ms) [] last_idx) @
          html_escape (drop (snd (highlight_loop line (m # ms) [] last_idx)) line))
      = strip_markers (html_escape (slice line last_idx ?s) @
          (span_open @ (html_escape (slice line ?s ?e) @ (span_close @ ?rest))))"
    by (simp only: loop fst_conv snd_conv append_assoc)
  also have "\<dots> = html_escape (slice line last_idx ?s) @ html_escape (slice line ?s ?e) @
      strip_markers ?rest"
    by (simp only: strip_markers_plain [OF html_escape_no_lt] strip_markers_open
        strip_markers_close)
  also have "\<dots> = html_escape (slice line last_idx ?s) @ html_escape (slice line ?s ?e) @
      html_escape (drop ?e line)"
    by (simp only: Cons.IH [OF ch])
  also have "\<dots> = html_escape (drop last_idx line)"
    using slice_drop [OF le(1), of line] slice_drop [OF le(2), of line]
    by (metis html_escape_append)
  finally show ?case .
qed

section \<open>The highlighted line covers the line\<close>

text \<open>
  Claim C2. For every line and every sequence of match spans on it that is in order and
  free of overlap (each span starts at or after the end of the one before), the
  highlighted line that \<open>test_pattern\<close> builds in lines 58 to 71 is, once the highlight
  markers are removed, exactly the HTML-escaped line.
\<close>

theorem highlighted_line_coverage:
  "spans_chain 0 ms \<Longrightarrow> strip_markers (highlighted_line line ms) = html_escape line"
  using strip_highlight_loop [of 0 ms line]
  by (auto simp: highlighted_line_def split: prod.splits)

theorem highlighted_line_coverage_witness:
  "spans_chain 0 (re_finditer (literal ''<'') ''a<b<'') \<and>
   re_finditer (literal ''<'') ''a<b<'' \<noteq> [] \<and>
   strip_markers (highlighted_line ''a<b<'' (re_finditer (literal ''<'') ''a<b<''))
     = html_escape ''a<b<''"
proof -
  have ms: "re_finditer (literal ''<'') ''a<b<'' =
     [\<lparr>m_start = 1, m_end = 2, m_groups = [], m_groupdict = []\<rparr>,
      \<lparr>m_start = 3, m_end = 4, m_groups = [], m_groupdict = []\<rparr>]"
    by code_simp
  have ch: "spans_chain 0 (re_finditer (literal ''<'') ''a<b<'')"
    by (simp add: ms)
  from highlighted_line_coverage [OF ch, of "''a<b<''"] ch show ?thesis
    by (simp add: ms)
qed

section \<open>The spans of one line\<close>

lemma re_search_from_span:
  "re_search_from rx s a i n = Some m \<Longrightarrow> i \<le> m_start m \<and> m_start m \<le> m_end m"
proof (induction n arbitrary: a i)
  case 0
  then show ?case by simp
next
  case (Suc n)
  show ?case
  proof (cases "find (\<lambda>c. \<not> (a \<and> fst c = 0)) (rx s i)")
    case None
    with Suc.prems have "re_search_from rx s False (Suc i) n = Some m" by simp
    from Suc.IH [OF this] show ?thesis by simp
  next
    case (Some c)
    with Suc.prems have "m = mk_match i c" by simp
    then show ?thesis by (simp add: mk_match_def)
  qed
qed

lemma scanner_chain: "spans_chain pos (scanner rx s pos adv)"
proof (induction rx s pos adv rule: scanner.induct)
  case (1 rx s pos adv)
  show ?case
  proof (cases "re_search rx s pos adv")
    case None
    then show ?thesis by (subst scanner.simps) simp
  next
    case (Some m)
    from Some have "pos \<le> m_start m \<and> m_start m \<le> m_end m"
      unfolding re_search_def by (rule re_search_from_span)
    with Some "1.IH" [OF Some] show ?thesis by (subst scanner.simps) simp
  qed
qed

lemma spans_chain_mono: "spans_chain b ms \<Longrightarrow> a \<le> b \<Longrightarrow> spans_chain a ms"
  by (cases ms) auto

lemma spans_chain_lower: "spans_chain a ms \<Longrightarrow> m \<in> set ms \<Longrightarrow> a \<le> m_start m"
proof (induction ms arbitrary: a)
  case Nil
  then show ?case by simp
next
  case (Cons x ms)
  show ?case
  proof (cases "m = x")
    case True
    with Cons.prems show ?thesis by simp
  next
    case False
    with Cons.prems have "m \<in> set ms" "spans_chain (m_end x) ms" by simp_all
    from Cons.IH [OF this(2) this(1)] Cons.prems(1) show ?thesis by simp
  qed
qed

lemma spans_chain_pairwise:
  "spans_chain a ms \<Longrightarrow> sorted_wrt (\<lambda>x y. m_end x \<le> m_start y) ms"
proof (induction ms arbitrary: a)
  case Nil
  then show ?case by simp
next
  case (Cons x ms)
  then have "spans_chain (m_end x) ms" by simp
  with Cons.IH spans_chain_lower show ?case by auto
qed

lemma spans_chain_sorted: "spans_chain a ms \<Longrightarrow> sorted (map m_start ms)"
proof (induction ms arbitrary: a)
  case Nil
  then show ?case by simp
next
  case (Cons x ms)
  then have ch: "spans_chain (m_end x) ms" and le: "m_start x \<le> m_end x" by simp_all
  have "\<forall>y\<in>set ms. m_start x \<le> m_start y"
    using spans_chain_lower [OF ch] le by fastforce
  with Cons.IH [OF ch] show ?case by simp
qed

lemma spans_chain_bounds:
  "spans_chain a ms =
     (sorted_wrt (\<lambda>x y. m_end x \<le> m_start y) ms \<and>
      (\<forall>m \<in> set ms. a \<le> m_start m \<and> m_start m \<le> m_end m))"
proof (induction ms arbitrary: a)
  case Nil
  then show ?case by simp
next
  case (Cons x ms)
  show ?case unfolding spans_chain.simps Cons.IH [of "m_end x"] by auto
qed

text \<open>
  Claim C3. For every compiled pattern and every line, the match spans that the per-line
  scan (\<open>finditer\<close>) produces are in increasing order of start offset and pairwise
  non-overlapping, each match beginning at or after the end of the match before it.
\<close>

theorem finditer_spans_ordered:
  "spans_chain 0 (re_finditer rx line) \<and>
   sorted (map m_start (re_finditer rx line)) \<and>
   sorted_wrt (\<lambda>x y. m_end x \<le> m_start y) (re_finditer rx line)"
  unfolding re_finditer_def
  using scanner_chain [of 0 rx line False] spans_chain_sorted spans_chain_pairwise by blast

theorem finditer_spans_ordered_witness:
  "re_finditer (literal '''') ''ab'' =
     [\<lparr>m_start = 0, m_end = 0, m_groups = [], m_groupdict = []\<rparr>,
      \<lparr>m_start = 1, m_end = 1, m_groups = [], m_groupdict = []\<rparr>,
      \<lparr>m_start = 2, m_end = 2, m_groups = [], m_groupdict = []\<rparr>] \<and>
   spans_chain 0 (re_finditer (literal '''') ''ab'') \<and>
   sorted (map m_start (re_finditer (literal '''') ''ab'')) \<and>
   sorted_wrt (\<lambda>x y. m_end x \<le> m_start y) (re_finditer (literal '''') ''ab'')"
proof -
  have "re_finditer (literal '''') ''ab'' =
     [\<lparr>m_start = 0, m_end = 0, m_groups = [], m_groupdict = []\<rparr>,
      \<lparr>m_start = 1, m_end = 1, m_groups = [], m_groupdict = []\<rparr>,
      \<lparr>m_start = 2, m_end = 2, m_groups = [], m_groupdict = []\<rparr>]"
    by code_simp
  with finditer_spans_ordered [of "literal ''''" "''ab''"] show ?thesis by blast
qed

section \<open>The lines that are scanned\<close>

lemma split_nl_nonempty: "split_nl s \<noteq> []"
  by (induction s) (auto split: list.splits)

lemma length_split_nl: "length (split_nl s) = Suc (count_list s (CHR 0x0A))"
  by (induction s) (auto split: list.splits simp: split_nl_nonempty)

lemma join_split_nl: "py_join [CHR 0x0A] (split_nl s) = s"
proof (induction s)
  case Nil
  then show ?case by simp
next
  case (Cons c s)
  obtain l ls where sp: "split_nl s = l # ls" using split_nl_nonempty by (cases "split_nl s") auto
  show ?case
  proof (cases "c = CHR 0x0A")
    case True
    with Cons sp show ?thesis by simp
  next
    case False
    with Cons sp show ?thesis by (cases ls) simp_all
  qed
qed

lemma split_nl_no_newline: "CHR 0x0A \<notin> set (concat (split_nl s))"
  by (induction s) (auto split: list.splits)

lemma strip_decompose:
  "s = takeWhile py_isspace s @ py_strip s @ rev (takeWhile py_isspace (rev (py_lstrip s)))"
proof -
  have "py_lstrip s = py_strip s @ rev (takeWhile py_isspace (rev (py_lstrip s)))"
    unfolding py_strip_def py_rstrip_def
    by (metis rev_append rev_rev_ident takeWhile_dropWhile_id)
  then show ?thesis unfolding py_lstrip_def by (metis takeWhile_dropWhile_id)
qed

lemma rstrip_keeps_head:
  assumes "xs \<noteq> []" "\<not> P (hd xs)"
  shows "rev (dropWhile P (rev xs)) \<noteq> [] \<and> hd (rev (dropWhile P (rev xs))) = hd xs"
proof -
  from assms(1) have r: "rev xs = rev (tl xs) @ [hd xs]" by (cases xs) simp_all
  show ?thesis unfolding r using assms(2)
    by (auto simp: dropWhile_append hd_append)
qed

lemma lstrip_strip: "py_lstrip (py_strip s) = py_strip s"
proof (cases "py_lstrip s = []")
  case True
  then have "py_strip s = []" by (simp add: py_strip_def py_rstrip_def)
  then show ?thesis by (simp add: py_lstrip_def)
next
  case False
  then have "\<not> py_isspace (hd (py_lstrip s))"
    unfolding py_lstrip_def by (metis hd_dropWhile)
  from rstrip_keeps_head [where P = py_isspace, OF False this]
  have "py_strip s \<noteq> []" "\<not> py_isspace (hd (py_strip s))"
    using \<open>\<not> py_isspace (hd (py_lstrip s))\<close> by (simp_all add: py_strip_def py_rstrip_def)
  then show ?thesis unfolding py_lstrip_def [of "py_strip s"] by (cases "py_strip s") simp_all
qed

lemma rstrip_strip: "py_rstrip (py_strip s) = py_strip s"
  by (simp add: py_strip_def py_rstrip_def)

lemma scan_lines_ok:
  "(\<And>l. l \<in> set ls \<Longrightarrow> finditer re p l = Inr (f l)) \<Longrightarrow>
   scan_lines re p i ls acc =
     Inr (acc @ concat (map (\<lambda>(j, l). line_block j l (f l)) (zip [i ..< i + length ls] ls)))"
proof (induction ls arbitrary: i acc)
  case Nil
  then show ?case by simp
next
  case (Cons l ls)
  have up: "[i ..< i + length (l # ls)] = i # [Suc i ..< Suc i + length ls]"
    by (simp add: upt_conv_Cons del: upt_Suc)
  from Cons.prems have l: "finditer re p l = Inr (f l)" by simp
  from Cons.prems have "\<And>x. x \<in> set ls \<Longrightarrow> finditer re p x = Inr (f x)" by simp
  from Cons.IH [OF this, of "Suc i" "acc @ line_block i l (f l)"] l show ?case
    unfolding up by (simp del: upt_Suc)
qed

text \<open>
  Claim C4, as the code has it. The lines scanned one by one are the pieces, split at
  newline characters, of the test text with the whitespace at both of its ends removed
  (\<open>test_input.strip()\<close>): the text is a run of whitespace, the stripped text, and a run
  of whitespace; the stripped text neither starts nor ends with whitespace; joining the
  lines with newlines gives the stripped text back, no line holds a newline, and there is
  one line more than there are newlines, so blank lines inside the text stay lines. The
  lines are reported with their index counted from 1.
\<close>

theorem test_lines_strip_both_ends:
  "test_lines test_input = split_nl (py_strip test_input) \<and>
   test_input = takeWhile py_isspace test_input @ py_strip test_input @
            rev (takeWhile py_isspace (rev (py_lstrip test_input))) \<and>
   py_lstrip (py_strip test_input) = py_strip test_input \<and>
   py_rstrip (py_strip test_input) = py_strip test_input \<and>
   py_join [CHR 0x0A] (test_lines test_input) = py_strip test_input \<and>
   CHR 0x0A \<notin> set (concat (test_lines test_input)) \<and>
   length (test_lines test_input) = Suc (count_list (py_strip test_input) (CHR 0x0A)) \<and>
   scan_lines (py_re compile) rx 1 (test_lines test_input) [] =
     Inr (concat (map (\<lambda>(i, line). line_block i line (re_finditer rx line))
                      (enumerate1 (test_lines test_input))))"
proof -
  have f8: "scan_lines (py_re compile) rx 1 (test_lines test_input) [] =
     Inr (concat (map (\<lambda>(i, line). line_block i line (re_finditer rx line))
                      (enumerate1 (test_lines test_input))))"
    using scan_lines_ok [of "test_lines test_input" "py_re compile" rx "re_finditer rx" 1 "[]"]
    by (simp add: py_re_def enumerate1_def del: upt_Suc)
  have f1: "test_lines test_input = split_nl (py_strip test_input)"
    by (simp add: test_lines_def)
  have f5: "py_join [CHR 0x0A] (test_lines test_input) = py_strip test_input"
    unfolding f1 by (rule join_split_nl)
  have f6: "CHR 0x0A \<notin> set (concat (test_lines test_input))"
    unfolding f1 by (rule split_nl_no_newline)
  have f7: "length (test_lines test_input) = Suc (count_list (py_strip test_input) (CHR 0x0A))"
    unfolding f1 by (rule length_split_nl)
  show ?thesis
    by (intro conjI f1 strip_decompose lstrip_strip rstrip_strip f5 f6 f7 f8)
qed

theorem test_lines_strip_both_ends_witness:
  "test_lines [CHR ''a'', CHR 0x0A, CHR 0x0A, CHR ''b'', CHR 0x0A] = [''a'', [], ''b''] \<and>
   length (test_lines [CHR ''a'', CHR 0x0A, CHR 0x0A, CHR ''b'', CHR 0x0A]) = 3 \<and>
   py_join [CHR 0x0A] (test_lines [CHR ''a'', CHR 0x0A, CHR 0x0A, CHR ''b'', CHR 0x0A])
     = [CHR ''a'', CHR 0x0A, CHR 0x0A, CHR ''b'']"
proof -
  let ?t = "[CHR ''a'', CHR 0x0A, CHR 0x0A, CHR ''b'', CHR 0x0A]"
  have st: "py_strip ?t = [CHR ''a'', CHR 0x0A, CHR 0x0A, CHR ''b'']"
    by (simp add: py_strip_def py_rstrip_def py_lstrip_def py_isspace_def)
  note inst = test_lines_strip_both_ends [of ?t "\<lambda>p. Inr (literal p)" "literal ''a''"]
  from inst have a: "test_lines ?t = split_nl (py_strip ?t)" by blast
  from inst have b: "py_join [CHR 0x0A] (test_lines ?t) = py_strip ?t" by blast
  from inst have c: "length (test_lines ?t) = Suc (count_list (py_strip ?t) (CHR 0x0A))"
    by blast
  have "test_lines ?t = [''a'', [], ''b'']" unfolding a st by simp
  moreover have "length (test_lines ?t) = 3" unfolding c st by simp
  moreover have "py_join [CHR 0x0A] (test_lines ?t) = [CHR ''a'', CHR 0x0A, CHR 0x0A, CHR ''b'']"
    unfolding b st by simp
  ultimately show ?thesis by blast
qed

text \<open>
  The claim as the spec words it, with only trailing whitespace trimmed, fails on a text
  that starts with a space: the code scans the line \<open>a\<close>, the spec's wording gives the
  line \<open> a\<close>.
\<close>

theorem test_lines_leading_whitespace_counterexample:
  "test_lines '' a'' = [''a''] \<and> split_nl (py_rstrip '' a'') = ['' a''] \<and>
   test_lines '' a'' \<noteq> split_nl (py_rstrip '' a'')"
  by (simp add: test_lines_def py_strip_def py_rstrip_def py_lstrip_def py_isspace_def)

section \<open>Errors never leave \<open>test_pattern\<close>\<close>

lemma scan_lines_fail:
  "(\<And>l. l \<in> set pre \<Longrightarrow> finditer re p l = Inr (f l)) \<Longrightarrow>
   finditer re p line = Inl e \<Longrightarrow>
   scan_lines re p i (pre @ line # post) acc = Inl e"
proof (induction pre arbitrary: i acc)
  case Nil
  then show ?case by simp
next
  case (Cons l pre)
  from Cons.prems(1) have l: "finditer re p l = Inr (f l)" by simp
  from Cons.prems(1) have "\<And>x. x \<in> set pre \<Longrightarrow> finditer re p x = Inr (f x)" by simp
  from Cons.IH [OF this Cons.prems(2)] l show ?case by simp
qed

lemma results_html_cases:
  "(\<exists>html. try_body re pattern t = Inr html \<and> results_html re pattern t = html) \<or>
   (\<exists>msg. try_body re pattern t = Inl (ReError msg) \<and> results_html re pattern t = regex_error_block msg) \<or>
   (\<exists>msg. try_body re pattern t = Inl (OtherException msg) \<and> results_html re pattern t = error_block msg)"
proof (cases "try_body re pattern t")
  case (Inl e)
  then show ?thesis by (cases e) (simp_all add: results_html_def)
next
  case (Inr html)
  then show ?thesis by (simp add: results_html_def)
qed

text \<open>
  Claim C1, as the code has it. The report-building part of \<open>test_pattern\<close> always
  returns a value. The two handlers choose by the class of the exception: when
  compilation of the pattern fails with \<open>re.error\<close> the result is the \<open>Regex Error\<close>
  block; when any other exception is raised, by the compilation, while a line is scanned
  (after any number of lines scanned without failure) or while the find-all pass runs,
  the result is the \<open>Error\<close> block. In both cases the result is that block alone: what
  the lines before the failure had added to the report is dropped. In every case the
  result is the report of a run without exception or one of the two error blocks.
\<close>

theorem test_pattern_error_reports:
  "(re_compile re pattern = Inl (ReError msg) \<longrightarrow>
      results_html re pattern t = regex_error_block msg) \<and>
   (re_compile re pattern = Inl (OtherException msg) \<longrightarrow>
      results_html re pattern t = error_block msg) \<and>
   (re_compile re pattern = Inr p \<and> test_lines t = pre @ line # post \<and>
    (\<forall>l \<in> set pre. finditer re p l = Inr (f l)) \<and>
    finditer re p line = Inl (OtherException msg) \<longrightarrow>
      results_html re pattern t = error_block msg) \<and>
   (re_compile re pattern = Inr p \<and>
    (\<forall>l \<in> set (test_lines t). finditer re p l = Inr (f l)) \<and>
    findall re p t = Inl (OtherException msg) \<longrightarrow>
      results_html re pattern t = error_block msg) \<and>
   ((\<exists>html. try_body re pattern t = Inr html \<and> results_html re pattern t = html) \<or>
    (\<exists>m. try_body re pattern t = Inl (ReError m) \<and>
          results_html re pattern t = regex_error_block m) \<or>
    (\<exists>m. try_body re pattern t = Inl (OtherException m) \<and>
          results_html re pattern t = error_block m)) \<and>
   test_pattern re pattern_file t =
     (py_strip pattern_file, t, results_html re (py_strip pattern_file) t)"
proof (intro conjI impI)
  assume "re_compile re pattern = Inl (ReError msg)"
  then show "results_html re pattern t = regex_error_block msg"
    by (simp add: results_html_def try_body_def)
next
  assume "re_compile re pattern = Inl (OtherException msg)"
  then show "results_html re pattern t = error_block msg"
    by (simp add: results_html_def try_body_def)
next
  assume a: "re_compile re pattern = Inr p \<and> test_lines t = pre @ line # post \<and>
    (\<forall>l \<in> set pre. finditer re p l = Inr (f l)) \<and>
    finditer re p line = Inl (OtherException msg)"
  then have "scan_lines re p 1 (pre @ line # post) [] = Inl (OtherException msg)"
    by (intro scan_lines_fail [where f = f]) simp_all
  with a show "results_html re pattern t = error_block msg"
    by (simp add: results_html_def try_body_def)
next
  assume a: "re_compile re pattern = Inr p \<and>
    (\<forall>l \<in> set (test_lines t). finditer re p l = Inr (f l)) \<and>
    findall re p t = Inl (OtherException msg)"
  then have "scan_lines re p 1 (test_lines t) [] =
      Inr ([] @ concat (map (\<lambda>(j, l). line_block j l (f l))
         (zip [1 ..< 1 + length (test_lines t)] (test_lines t))))"
    by (intro scan_lines_ok) simp
  with a show "results_html re pattern t = error_block msg"
    by (simp add: results_html_def try_body_def)
next
  show "(\<exists>html. try_body re pattern t = Inr html \<and> results_html re pattern t = html) \<or>
    (\<exists>m. try_body re pattern t = Inl (ReError m) \<and>
          results_html re pattern t = regex_error_block m) \<or>
    (\<exists>m. try_body re pattern t = Inl (OtherException m) \<and>
          results_html re pattern t = error_block m)"
    by (rule results_html_cases)
next
  show "test_pattern re pattern_file t =
     (py_strip pattern_file, t, results_html re (py_strip pattern_file) t)"
    by (simp add: test_pattern_def Let_def)
qed

theorem test_pattern_error_reports_witness:
  "results_html raising_api ''('' ''abc''
     = regex_error_block ''missing ), unterminated subpattern at position 0'' \<and>
   results_html raising_api ''a{1,99999999999}'' ''abc''
     = error_block ''the repetition number is too large'' \<and>
   results_html raising_api ''a'' [CHR ''a'', CHR 0x0A, CHR ''b'', CHR ''o'', CHR ''o'', CHR ''m'']
     = error_block ''scan failed'' \<and>
   results_html raising_api ''a'' ''bang'' = error_block ''findall failed''"
proof -
  have c1: "results_html raising_api ''('' ''abc''
     = regex_error_block ''missing ), unterminated subpattern at position 0''"
  proof -
    have "re_compile raising_api ''(''
        = Inl (ReError ''missing ), unterminated subpattern at position 0'')"
      by (simp add: raising_api_def)
    with test_pattern_error_reports [where re = raising_api and pattern = "''(''"
        and msg = "''missing ), unterminated subpattern at position 0''" and t = "''abc''",
        THEN conjunct1]
    show ?thesis by blast
  qed
  have c0: "results_html raising_api ''a{1,99999999999}'' ''abc''
     = error_block ''the repetition number is too large''"
  proof -
    have "re_compile raising_api ''a{1,99999999999}''
        = Inl (OtherException ''the repetition number is too large'')"
      by (simp add: raising_api_def)
    with test_pattern_error_reports [where re = raising_api
        and pattern = "''a{1,99999999999}''"
        and msg = "''the repetition number is too large''" and t = "''abc''",
        THEN conjunct2, THEN conjunct1]
    show ?thesis by blast
  qed
  have c2: "results_html raising_api ''a''
      [CHR ''a'', CHR 0x0A, CHR ''b'', CHR ''o'', CHR ''o'', CHR ''m'']
     = error_block ''scan failed''"
  proof -
    have "re_compile raising_api ''a'' = Inr (literal ''a'')"
      by (simp add: raising_api_def)
    moreover have "test_lines [CHR ''a'', CHR 0x0A, CHR ''b'', CHR ''o'', CHR ''o'', CHR ''m'']
        = [''a''] @ ''boom'' # []"
      by (simp add: test_lines_def py_strip_def py_rstrip_def py_lstrip_def py_isspace_def)
    moreover have "\<forall>l \<in> set [''a'']. finditer raising_api (literal ''a'') l
        = Inr (re_finditer (literal ''a'') l)"
      by (simp add: raising_api_def)
    moreover have "finditer raising_api (literal ''a'') ''boom''
        = Inl (OtherException ''scan failed'')"
      by (simp add: raising_api_def)
    ultimately show ?thesis
      using test_pattern_error_reports [where re = raising_api and pattern = "''a''"
        and msg = "''scan failed''" and p = "literal ''a''" and pre = "[''a'']"
        and line = "''boom''" and post = "[]" and f = "re_finditer (literal ''a'')"
        and t = "[CHR ''a'', CHR 0x0A, CHR ''b'', CHR ''o'', CHR ''o'', CHR ''m'']",
        THEN conjunct2, THEN conjunct2, THEN conjunct1]
      by blast
  qed
  have c3: "results_html raising_api ''a'' ''bang'' = error_block ''findall failed''"
  proof -
    have "re_compile raising_api ''a'' = Inr (literal ''a'')"
      by (simp add: raising_api_def)
    moreover have "test_lines ''bang'' = [''bang'']"
      by (simp add: test_lines_def py_strip_def py_rstrip_def py_lstrip_def py_isspace_def)
    then have "\<forall>l \<in> set (test_lines ''bang''). finditer raising_api (literal ''a'') l
        = Inr (re_finditer (literal ''a'') l)"
      by (simp add: raising_api_def)
    moreover have "findall raising_api (literal ''a'') ''bang''
        = Inl (OtherException ''findall failed'')"
      by (simp add: raising_api_def)
    ultimately show ?thesis
      using test_pattern_error_reports [where re = raising_api and pattern = "''a''"
        and msg = "''findall failed''" and p = "literal ''a''"
        and f = "re_finditer (literal ''a'')" and t = "''bang''",
        THEN conjunct2, THEN conjunct2, THEN conjunct2, THEN conjunct1]
      by blast
  qed
  from c1 c0 c2 c3 show ?thesis by blast
qed

text \<open>
  The claim as the spec words it, with every failure of the compilation reported as a
  pattern syntax error, fails for the pattern \<open>a{1,99999999999}\<close>: \<open>re.compile\<close> raises
  \<open>OverflowError\<close>, which is not an \<open>re.error\<close>, and the report is the \<open>Error\<close> block
  of the second handler, not the \<open>Regex Error\<close> block.
\<close>

theorem compile_failure_other_class_counterexample:
  "re_compile raising_api ''a{1,99999999999}''
     = Inl (OtherException ''the repetition number is too large'') \<and>
   results_html raising_api ''a{1,99999999999}'' ''abc''
     = error_block ''the repetition number is too large'' \<and>
   results_html raising_api ''a{1,99999999999}'' ''abc''
     \<noteq> regex_error_block ''the repetition number is too large''"
  by (simp add: raising_api_def results_html_def try_body_def error_block_def
      regex_error_block_def)

section \<open>The find-all summary\<close>

lemma results_html_py_re:
  "compile pattern = Inr rx \<Longrightarrow>
   results_html (py_re compile) pattern t =
     concat (map (\<lambda>(i, line). line_block i line (re_finditer rx line))
                 (enumerate1 (test_lines t))) @
     aggregate_block (re_findall rx t)"
proof -
  assume c: "compile pattern = Inr rx"
  have "scan_lines (py_re compile) rx 1 (test_lines t) [] =
      Inr ([] @ concat (map (\<lambda>(j, l). line_block j l (re_finditer rx l))
         (zip [1 ..< 1 + length (test_lines t)] (test_lines t))))"
    by (rule scan_lines_ok) (simp add: py_re_def)
  then have "scan_lines (py_re compile) rx 1 (test_lines t) [] =
      Inr (concat (map (\<lambda>(j, l). line_block j l (re_finditer rx l))
         (enumerate1 (test_lines t))))"
    by (simp add: enumerate1_def del: upt_Suc)
  moreover have "re_compile (py_re compile) pattern = Inr rx"
    using c by (simp add: py_re_def)
  moreover have "findall (py_re compile) rx t = Inr (re_findall rx t)"
    by (simp add: py_re_def)
  ultimately show ?thesis by (simp add: results_html_def try_body_def)
qed

lemma aggregate_block_empty_iff: "(aggregate_block all_matches = []) = (all_matches = [])"
  by (simp add: aggregate_block_def)

text \<open>
  Claim C5, as the code has it. When nothing raises, the report is the blocks of the lines
  of the stripped text followed by the summary block of one find-all pass over the raw
  test text, as it was read and not stripped; the count shown is the number of results
  of that pass, and the block is left out exactly when that number is zero.
\<close>

theorem aggregate_from_raw_text:
  \<open>re_compile re pattern = Inr p \<and>
   (\<forall>l \<in> set (test_lines t). finditer re p l = Inr (f l)) \<and>
   findall re p t = Inr all_matches \<longrightarrow>
     results_html re pattern t =
       concat (map (\<lambda>(i, line). line_block i line (f line)) (enumerate1 (test_lines t))) @
       aggregate_block all_matches \<and>
     (aggregate_block all_matches = []) = (all_matches = []) \<and>
     (all_matches \<noteq> [] \<longrightarrow>
        (\<exists>preview. aggregate_block all_matches =
           ''<div class="group-info"><strong>All matches found:</strong> '' @
           str_nat (length all_matches) @ ''<br>Matches: '' @ preview @ ''</div>''))\<close>
proof (intro impI conjI)
  assume a: "re_compile re pattern = Inr p \<and>
   (\<forall>l \<in> set (test_lines t). finditer re p l = Inr (f l)) \<and>
   findall re p t = Inr all_matches"
  then have "scan_lines re p 1 (test_lines t) [] =
      Inr ([] @ concat (map (\<lambda>(j, l). line_block j l (f l))
         (zip [1 ..< 1 + length (test_lines t)] (test_lines t))))"
    by (intro scan_lines_ok) simp
  with a show "results_html re pattern t =
       concat (map (\<lambda>(i, line). line_block i line (f line)) (enumerate1 (test_lines t))) @
       aggregate_block all_matches"
    by (simp add: results_html_def try_body_def enumerate1_def del: upt_Suc)
next
  show "(aggregate_block all_matches = []) = (all_matches = [])"
    by (rule aggregate_block_empty_iff)
next
  assume "all_matches \<noteq> []"
  then show \<open>\<exists>preview. aggregate_block all_matches =
           ''<div class="group-info"><strong>All matches found:</strong> '' @
           str_nat (length all_matches) @ ''<br>Matches: '' @ preview @ ''</div>''\<close>
    by (simp add: aggregate_block_def)
qed

theorem aggregate_from_raw_text_witness:
  "results_html (py_re (\<lambda>p. Inr (literal '' ''))) ''[ ]'' ''a '' =
     concat (map (\<lambda>(i, line). line_block i line (re_finditer (literal '' '') line))
                 (enumerate1 (test_lines ''a ''))) @
     aggregate_block [Plain '' ''] \<and>
   test_lines ''a '' = [''a''] \<and>
   aggregate_block [Plain '' ''] \<noteq> []"
proof -
  let ?re = "py_re (\<lambda>p. Inr (literal '' ''))"
  have c: "re_compile ?re ''[ ]'' = Inr (literal '' '')"
    by (simp add: py_re_def)
  have l: "\<forall>l \<in> set (test_lines ''a ''). finditer ?re (literal '' '') l
      = Inr (re_finditer (literal '' '') l)"
    by (simp add: py_re_def)
  have fa: "re_findall (literal '' '') ''a '' = [Plain '' '']"
    by code_simp
  have f: "findall ?re (literal '' '') ''a '' = Inr [Plain '' '']"
    by (simp add: py_re_def fa)
  have tl: "test_lines ''a '' = [''a'']"
    by (simp add: test_lines_def py_strip_def py_rstrip_def py_lstrip_def py_isspace_def)
  from aggregate_from_raw_text [where re = ?re and pattern = "''[ ]''" and p = "literal '' ''"
      and t = "''a ''" and f = "re_finditer (literal '' '')" and all_matches = "[Plain '' '']"]
    c l f
  have "results_html ?re ''[ ]'' ''a '' =
     concat (map (\<lambda>(i, line). line_block i line (re_finditer (literal '' '') line))
                 (enumerate1 (test_lines ''a ''))) @
     aggregate_block [Plain '' '']"
    and "(aggregate_block [Plain '' ''] = []) = ([Plain '' ''] = ([] :: fa_item list))"
    by blast+
  with tl show ?thesis by simp
qed

text \<open>
  The claim as the spec words it, with the find-all pass over the trimmed text, fails
  for a pattern that matches one space on the text \<open>a\<close> followed by a space: the only
  line scanned is \<open>a\<close>, without a match, and yet the summary block counts one match,
  the trailing space of the raw text.
\<close>

theorem aggregate_trimmed_text_counterexample:
  "re_findall (literal '' '') ''a '' = [Plain '' ''] \<and>
   re_findall (literal '' '') (py_strip ''a '') = [] \<and>
   results_html (py_re (\<lambda>p. Inr (literal '' ''))) ''[ ]'' ''a ''
     = line_block 1 ''a'' [] @ aggregate_block [Plain '' ''] \<and>
   results_html (py_re (\<lambda>p. Inr (literal '' ''))) ''[ ]'' ''a ''
     \<noteq> line_block 1 ''a'' [] @ aggregate_block (re_findall (literal '' '') (py_strip ''a ''))"
  by code_simp

text \<open>
  Claim C6, as the library has it. The find-all result has three shapes: the matched
  substrings when the pattern has no capturing group, the values of the group (plain
  strings, not tuples) when it has exactly one, and tuples of the group values when it
  has two or more.
\<close>

theorem findall_shapes:
  "re_findall rx s = map (findall_item s) (re_finditer rx s) \<and>
   (m_groups m = [] \<longrightarrow> findall_item s m = Plain (group0 s m)) \<and>
   (m_groups m = [g] \<longrightarrow> findall_item s m = Plain (absent_as_empty g)) \<and>
   (2 \<le> length (m_groups m) \<longrightarrow> findall_item s m = Groups (map absent_as_empty (m_groups m)))"
proof (intro conjI impI)
  show "re_findall rx s = map (findall_item s) (re_finditer rx s)"
    by (simp add: re_findall_def re_finditer_def)
next
  assume "m_groups m = []"
  then show "findall_item s m = Plain (group0 s m)" by (simp add: findall_item_def)
next
  assume "m_groups m = [g]"
  then show "findall_item s m = Plain (absent_as_empty g)" by (simp add: findall_item_def)
next
  assume "2 \<le> length (m_groups m)"
  then obtain a b r where "m_groups m = a # b # r"
    by (cases "m_groups m"; cases "tl (m_groups m)") auto
  then show "findall_item s m = Groups (map absent_as_empty (m_groups m))"
    by (simp add: findall_item_def)
qed

theorem findall_shapes_witness:
  "findall_item ''ab'' \<lparr>m_start = 0, m_end = 1, m_groups = [], m_groupdict = []\<rparr> = Plain ''a'' \<and>
   findall_item ''ab'' \<lparr>m_start = 0, m_end = 1, m_groups = [None], m_groupdict = []\<rparr> = Plain [] \<and>
   findall_item ''ab'' \<lparr>m_start = 0, m_end = 2, m_groups = [Some ''a'', None], m_groupdict = []\<rparr>
     = Groups [''a'', []]"
proof -
  let ?m0 = "\<lparr>m_start = 0, m_end = 1, m_groups = [], m_groupdict = []\<rparr>"
  let ?m1 = "\<lparr>m_start = 0, m_end = 1, m_groups = [None], m_groupdict = []\<rparr>"
  let ?m2 = "\<lparr>m_start = 0, m_end = 2, m_groups = [Some ''a'', None], m_groupdict = []\<rparr>"
  have "m_groups ?m0 = []" by simp
  with findall_shapes [where m = ?m0 and s = "''ab''" and rx = "literal ''a''"]
  have a: "findall_item ''ab'' ?m0 = Plain (group0 ''ab'' ?m0)" by blast
  have "m_groups ?m1 = [None]" by simp
  with findall_shapes [where m = ?m1 and s = "''ab''" and g = None and rx = "literal ''a''"]
  have b: "findall_item ''ab'' ?m1 = Plain (absent_as_empty None)" by blast
  have "2 \<le> length (m_groups ?m2)" by simp
  with findall_shapes [where m = ?m2 and s = "''ab''" and rx = "literal ''a''"]
  have c: "findall_item ''ab'' ?m2 = Groups (map absent_as_empty (m_groups ?m2))" by blast
  from a b c show ?thesis by (simp add: group0_def slice_def absent_as_empty_def)
qed

text \<open>
  The claim as the spec words it, with tuples as soon as there is one capturing group,
  fails for a pattern of one group around the literal \<open>a\<close> on the text \<open>a\<close>: the
  result holds the plain string \<open>a\<close>.
\<close>

theorem findall_one_group_counterexample:
  "map m_groups (re_finditer (group_literal ''a'') ''a'') = [[Some ''a'']] \<and>
   re_findall (group_literal ''a'') ''a'' = [Plain ''a''] \<and>
   re_findall (group_literal ''a'') ''a'' \<noteq> [Groups [''a'']]"
  by code_simp

text \<open>
  Claim C7. For a nonempty find-all result the preview is the escaped form of the
  textual rendering of the result cut to its first 200 characters, and the ellipsis
  \<open>...\<close> follows exactly when the rendering is longer than 200 characters, which is
  when the cut dropped something. For the pattern \<open>a\<close> on one line of 150 letters
  \<open>a\<close> the count is 150 and the preview is cut and ends with the ellipsis.
\<close>

theorem aggregate_preview:
  \<open>(all_matches \<noteq> [] \<longrightarrow>
     aggregate_block all_matches =
       ''<div class="group-info"><strong>All matches found:</strong> '' @
       str_nat (length all_matches) @ ''<br>Matches: '' @
       html_escape (take 200 (str_list all_matches)) @
       (if 200 < length (str_list all_matches) then ''...'' else []) @ ''</div>'') \<and>
   length (take 200 (str_list all_matches)) \<le> 200 \<and>
   (200 < length (str_list all_matches))
     = (take 200 (str_list all_matches) \<noteq> str_list all_matches) \<and>
   re_findall (literal ''a'') (replicate 150 (CHR ''a'')) = replicate 150 (Plain ''a'') \<and>
   length (re_findall (literal ''a'') (replicate 150 (CHR ''a''))) = 150 \<and>
   aggregate_block (re_findall (literal ''a'') (replicate 150 (CHR ''a''))) =
     ''<div class="group-info"><strong>All matches found:</strong> 150<br>Matches: '' @
     ''['' @ concat (replicate 39 ''&#x27;a&#x27;, '') @ ''&#x27;a&#x27;,'' @ ''...'' @ ''</div>'' \<and>
   (\<exists>line_blocks.
      results_html (py_re (\<lambda>p. Inr (literal p))) ''a'' (replicate 150 (CHR ''a'')) =
        line_blocks @
        ''<div class="group-info"><strong>All matches found:</strong> 150<br>Matches: '' @
        ''['' @ concat (replicate 39 ''&#x27;a&#x27;, '') @ ''&#x27;a&#x27;,'' @ ''...'' @ ''</div>'')\<close>
proof -
  have a: \<open>all_matches \<noteq> [] \<longrightarrow>
     aggregate_block all_matches =
       ''<div class="group-info"><strong>All matches found:</strong> '' @
       str_nat (length all_matches) @ ''<br>Matches: '' @
       html_escape (take 200 (str_list all_matches)) @
       (if 200 < length (str_list all_matches) then ''...'' else []) @ ''</div>''\<close>
    by (simp add: aggregate_block_def)
  have b: "length (take 200 (str_list all_matches)) \<le> 200" by simp
  have c: "(200 < length (str_list all_matches))
     = (take 200 (str_list all_matches) \<noteq> str_list all_matches)"
    by (auto simp: take_all_iff)
  have d: "re_findall (literal ''a'') (replicate 150 (CHR ''a'')) = replicate 150 (Plain ''a'')"
    by code_simp
  have e: "length (re_findall (literal ''a'') (replicate 150 (CHR ''a''))) = 150"
    unfolding d by simp
  have f: \<open>aggregate_block (replicate 150 (Plain ''a'')) =
     ''<div class="group-info"><strong>All matches found:</strong> 150<br>Matches: '' @
     ''['' @ concat (replicate 39 ''&#x27;a&#x27;, '') @ ''&#x27;a&#x27;,'' @ ''...'' @ ''</div>''\<close>
    by code_simp
  have g: \<open>\<exists>line_blocks.
      results_html (py_re (\<lambda>p. Inr (literal p))) ''a'' (replicate 150 (CHR ''a'')) =
        line_blocks @
        ''<div class="group-info"><strong>All matches found:</strong> 150<br>Matches: '' @
        ''['' @ concat (replicate 39 ''&#x27;a&#x27;, '') @ ''&#x27;a&#x27;,'' @ ''...'' @ ''</div>''\<close>
    unfolding results_html_py_re [of "\<lambda>p. Inr (literal p)" "''a''" "literal ''a''", OF refl] d f
    by blast
  have h: \<open>aggregate_block (re_findall (literal ''a'') (replicate 150 (CHR ''a''))) =
     ''<div class="group-info"><strong>All matches found:</strong> 150<br>Matches: '' @
     ''['' @ concat (replicate 39 ''&#x27;a&#x27;, '') @ ''&#x27;a&#x27;,'' @ ''...'' @ ''</div>''\<close>
    unfolding d by (rule f)
  show ?thesis by (intro conjI a b c d e h g)
qed

theorem aggregate_preview_witness:
  \<open>aggregate_block [Plain ''ab'', Plain ''<''] =
     ''<div class="group-info"><strong>All matches found:</strong> 2<br>Matches: [&#x27;ab&#x27;, &#x27;&lt;&#x27;]</div>''\<close>
proof -
  have ne: "[Plain ''ab'', Plain ''<''] \<noteq> []" by simp
  have r: "str_list [Plain ''ab'', Plain ''<''] = [CHR ''['', CHR 0x27, CHR ''a'', CHR ''b'', CHR 0x27, CHR '','', CHR '' '', CHR 0x27, CHR ''<'', CHR 0x27, CHR '']'']"
    by code_simp
  have n: "str_nat (length [Plain ''ab'', Plain ''<'']) = ''2''"
    by (simp add: digit_char_def char_of_digits)
  from aggregate_preview [of "[Plain ''ab'', Plain ''<'']"] ne
  have \<open>aggregate_block [Plain ''ab'', Plain ''<''] =
       ''<div class="group-info"><strong>All matches found:</strong> '' @
       str_nat (length [Plain ''ab'', Plain ''<'']) @ ''<br>Matches: '' @
       html_escape (take 200 (str_list [Plain ''ab'', Plain ''<''])) @
       (if 200 < length (str_list [Plain ''ab'', Plain ''<'']) then ''...'' else []) @ ''</div>''\<close>
    by blast
  then show ?thesis unfolding r n by (simp add: html_escape_def escape_char_def)
qed

section \<open>Group values\<close>



text \<open>
  Claim C10. A group that captured the string \<open>None\<close> is rendered exactly as a group
  that took no part in the match: both give the quoted value \<open>"None"\<close> in the group
  list and in the named-group list, as the alternation of a group \<open>None\<close> and a
  literal \<open>x\<close> shows on the lines \<open>None\<close> and \<open>x\<close>.
\<close>

theorem captured_None_like_absent:
  \<open>group_item (j, Some ''None'') = group_item (j, None) \<and>
   named_item (name, Some ''None'') = named_item (name, None) \<and>
   m_groups (hd (re_finditer (group_or_literal ''None'' ''x'') ''None'')) = [Some ''None''] \<and>
   m_groups (hd (re_finditer (group_or_literal ''None'' ''x'') ''x'')) = [None] \<and>
   match_detail ''None'' (1, hd (re_finditer (group_or_literal ''None'' ''x'') ''None'')) =
     ''<div style="margin-top: 4px; margin-left: 10px; font-size: 0.9em; border-left: 2px solid #888; padding-left: 8px;"><strong>Match 1:</strong> "None"<br><strong>Groups:</strong> 1: "None"</div>'' \<and>
   match_detail ''x'' (1, hd (re_finditer (group_or_literal ''None'' ''x'') ''x'')) =
     ''<div style="margin-top: 4px; margin-left: 10px; font-size: 0.9em; border-left: 2px solid #888; padding-left: 8px;"><strong>Match 1:</strong> "x"<br><strong>Groups:</strong> 1: "None"</div>''\<close>
proof -
  have a: "group_item (j, Some ''None'') = group_item (j, None)"
    by (simp add: group_item_def group_value_def)
  have b: "named_item (name, Some ''None'') = named_item (name, None)"
    by (simp add: named_item_def group_value_def)
  have c: "m_groups (hd (re_finditer (group_or_literal ''None'' ''x'') ''None'')) = [Some ''None'']"
    by code_simp
  have d: "m_groups (hd (re_finditer (group_or_literal ''None'' ''x'') ''x'')) = [None]"
    by code_simp
  have e: \<open>match_detail ''None'' (1, hd (re_finditer (group_or_literal ''None'' ''x'') ''None'')) =
     ''<div style="margin-top: 4px; margin-left: 10px; font-size: 0.9em; border-left: 2px solid #888; padding-left: 8px;"><strong>Match 1:</strong> "None"<br><strong>Groups:</strong> 1: "None"</div>''\<close>
    by code_simp
  have f: \<open>match_detail ''x'' (1, hd (re_finditer (group_or_literal ''None'' ''x'') ''x'')) =
     ''<div style="margin-top: 4px; margin-left: 10px; font-size: 0.9em; border-left: 2px solid #888; padding-left: 8px;"><strong>Match 1:</strong> "x"<br><strong>Groups:</strong> 1: "None"</div>''\<close>
    by code_simp
  from a b c d e f show ?thesis by blast
qed

theorem captured_None_like_absent_witness:
  \<open>group_item (1, Some ''None'') = ''1: "None"'' \<and> group_item (1, None) = ''1: "None"'' \<and>
   named_item (''g'', Some ''None'') = ''g: "None"'' \<and> named_item (''g'', None) = ''g: "None"''\<close>
proof -
  have a: \<open>group_item (1, None) = ''1: "None"''\<close>
    by (simp add: group_item_def group_value_def html_escape_def escape_char_def digit_char_def char_of_digits)
  have b: \<open>named_item (''g'', None) = ''g: "None"''\<close>
    by (simp add: named_item_def group_value_def html_escape_def escape_char_def)
  from captured_None_like_absent [of 1 "''g''"] a b show ?thesis by simp
qed

section \<open>Escaping\<close>

lemma escape_char_plain: "c \<notin> markup_chars \<Longrightarrow> escape_char c = [c]"
  by (simp add: markup_chars_def escape_char_def)

lemma escape_char_markup:
  "c \<in> markup_chars \<Longrightarrow> 1 < length (escape_char c) \<and> CHR ''&'' \<in> set (escape_char c)"
  by (auto simp: markup_chars_def escape_char_def)

lemma escape_char_length: "1 \<le> length (escape_char c)"
  by (simp add: escape_char_def)

lemma html_escape_plain: "set s \<inter> markup_chars = {} \<Longrightarrow> html_escape s = s"
  by (induction s) (simp_all add: html_escape_def escape_char_plain)

lemma html_escape_length: "length s \<le> length (html_escape s)"
proof (induction s)
  case Nil
  then show ?case by (simp add: html_escape_def)
next
  case (Cons c s)
  with escape_char_length [of c] show ?case by (simp add: html_escape_def)
qed

lemma html_escape_longer:
  "set s \<inter> markup_chars \<noteq> {} \<Longrightarrow> length s < length (html_escape s)"
proof (induction s)
  case Nil
  then show ?case by simp
next
  case (Cons c s)
  show ?case
  proof (cases "c \<in> markup_chars")
    case True
    with escape_char_markup [of c] html_escape_length [of s] show ?thesis
      by (simp add: html_escape_def)
  next
    case False
    with Cons.prems have "set s \<inter> markup_chars \<noteq> {}" by auto
    from Cons.IH [OF this] escape_char_length [of c] show ?thesis
      by (simp add: html_escape_def)
  qed
qed

lemma html_escape_fixed_iff: "(html_escape s = s) = (set s \<inter> markup_chars = {})"
  using html_escape_plain [of s] html_escape_longer [of s] by fastforce

lemma html_escape_has_amp:
  "set s \<inter> markup_chars \<noteq> {} \<Longrightarrow> CHR ''&'' \<in> set (html_escape s)"
proof -
  assume "set s \<inter> markup_chars \<noteq> {}"
  then obtain c where c: "c \<in> set s" "c \<in> markup_chars" by auto
  with escape_char_markup [of c] show ?thesis by (auto simp: html_escape_def)
qed

lemma html_escape_twice_iff:
  "(html_escape (html_escape s) = html_escape s) = (set s \<inter> markup_chars = {})"
proof (cases "set s \<inter> markup_chars = {}")
  case True
  then show ?thesis by (simp add: html_escape_plain)
next
  case False
  from html_escape_has_amp [OF False]
  have "set (html_escape s) \<inter> markup_chars \<noteq> {}" by (auto simp: markup_chars_def)
  with False show ?thesis by (simp add: html_escape_fixed_iff)
qed

lemma escape_char_safe:
  \<open>set (escape_char c) \<inter> {CHR ''<'', CHR ''>'', CHR ''"'', CHR 0x27} = {}\<close>
  by (simp add: escape_char_def)

lemma html_escape_safe:
  \<open>set (html_escape s) \<inter> {CHR ''<'', CHR ''>'', CHR ''"'', CHR 0x27} = {}\<close>
proof (induction s)
  case Nil
  then show ?case by (simp add: html_escape_def)
next
  case (Cons c s)
  have "html_escape (c # s) = escape_char c @ html_escape s" by (simp add: html_escape_def)
  with Cons escape_char_safe [of c] show ?case by (simp add: Int_Un_distrib2)
qed

lemma line_block_lt: "\<exists>r. line_block i l ms = CHR ''<'' # r"
  by (simp add: line_block_def)

lemma scan_lines_prefix: "scan_lines re p i ls acc = Inr h \<Longrightarrow> \<exists>r. h = acc @ r"
proof (induction ls arbitrary: i acc)
  case Nil
  then show ?case by simp
next
  case (Cons l ls)
  then show ?case
  proof (cases "finditer re p l")
    case (Inl e)
    with Cons.prems show ?thesis by simp
  next
    case (Inr ms)
    with Cons.prems have "scan_lines re p (Suc i) ls (acc @ line_block i l ms) = Inr h" by simp
    from Cons.IH [OF this] show ?thesis by auto
  qed
qed

lemma try_body_lt: "try_body re pattern t = Inr html \<Longrightarrow> \<exists>r. html = CHR ''<'' # r"
proof -
  assume a: "try_body re pattern t = Inr html"
  obtain l ls where tl: "test_lines t = l # ls"
    using split_nl_nonempty [of "py_strip t"] by (cases "test_lines t") (auto simp: test_lines_def)
  from a obtain p where p: "re_compile re pattern = Inr p"
    by (auto simp: try_body_def split: sum.splits)
  from a p obtain h where h: "scan_lines re p 1 (l # ls) [] = Inr h"
    by (auto simp: try_body_def tl split: sum.splits)
  from a p h obtain r0 where r0: "html = h @ r0"
    by (auto simp: try_body_def tl split: sum.splits)
  from h obtain ms where "scan_lines re p (Suc 1) ls ([] @ line_block 1 l ms) = Inr h"
    by (auto split: sum.splits)
  from scan_lines_prefix [OF this] obtain r1 where "h = line_block 1 l ms @ r1" by auto
  with line_block_lt [of 1 l ms] r0 show ?thesis by auto
qed

lemma results_html_lt: "\<exists>r. results_html re pattern t = CHR ''<'' # r"
proof (cases "try_body re pattern t")
  case (Inl e)
  then show ?thesis
    by (cases e) (simp_all add: results_html_def regex_error_block_def error_block_def)
next
  case (Inr html)
  with try_body_lt [OF Inr] show ?thesis by (simp add: results_html_def)
qed

lemma highlight_loop_closed:
  "highlight_loop line ms hl a =
     (hl @ concat (map (\<lambda>(last_idx, m).
              html_escape (slice line last_idx (m_start m)) @
              span_open @ html_escape (slice line (m_start m) (m_end m)) @ span_close)
            (zip (a # map m_end ms) ms)),
      last (a # map m_end ms))"
proof (induction ms arbitrary: hl a)
  case Nil
  then show ?case by simp
next
  case (Cons m ms)
  show ?case
    unfolding highlight_loop.simps Let_def Cons.IH
    by simp
qed

lemma highlighted_line_closed:
  "highlighted_line line ms =
     concat (map (\<lambda>(last_idx, m).
              html_escape (slice line last_idx (m_start m)) @
              span_open @ html_escape (slice line (m_start m) (m_end m)) @ span_close)
            (zip (0 # map m_end ms) ms)) @
     html_escape (drop (last (0 # map m_end ms)) line)"
  unfolding highlighted_line_def highlight_loop_closed by simp

lemma escaped_group_value:
  "html_escape (group_value g) = (case g of Some v \<Rightarrow> html_escape v | None \<Rightarrow> ''None'')"
  by (cases g) (simp_all add: group_value_def html_escape_def escape_char_def)

text \<open>
  Claim C9, as the code has it. Each value put into the report goes through the escape
  function exactly once: the text before a span, the text of a span and the text after
  the last span of a highlighted line, the matched text of a match, each group value and
  each named-group value, a line without match, the cut rendering of the find-all
  result, and the message of either error block; the report is these blocks one after
  the other, with nothing escaped again. An escaped value holds none of the characters
  \<open><\<close>, \<open>>\<close> and the two quotes. The escape function is not idempotent: escaping an
  escaped value again changes it unless the value holds no markup character, and
  escaping the complete rendered report always changes it.
\<close>

theorem escaping_once_not_idempotent:
  \<open>html_escape (results_html re pattern t) \<noteq> results_html re pattern t \<and>
   (html_escape (html_escape v) = html_escape v) = (set v \<inter> markup_chars = {}) \<and>
   set (html_escape v) \<inter> {CHR ''<'', CHR ''>'', CHR ''"'', CHR 0x27} = {} \<and>
   highlighted_line line ms =
     concat (map (\<lambda>(last_idx, m).
              html_escape (slice line last_idx (m_start m)) @
              span_open @ html_escape (slice line (m_start m) (m_end m)) @ span_close)
            (zip (0 # map m_end ms) ms)) @
     html_escape (drop (last (0 # map m_end ms)) line) \<and>
   match_detail line (k, m) =
     ''<div style="margin-top: 4px; margin-left: 10px; font-size: 0.9em; border-left: 2px solid #888; padding-left: 8px;">'' @
     ''<strong>Match '' @ str_nat k @ '':</strong> "'' @
     html_escape (slice line (m_start m) (m_end m)) @ ''"'' @
     (if m_groups m \<noteq> []
      then ''<br><strong>Groups:</strong> '' @
           py_join '', ''
             (map (\<lambda>(j, g). str_nat j @ '': "'' @
                     (case g of Some x \<Rightarrow> html_escape x | None \<Rightarrow> ''None'') @ ''"'')
                  (enumerate1 (m_groups m)))
      else []) @
     (if m_groupdict m \<noteq> []
      then ''<br><strong>Named:</strong> '' @
           py_join '', ''
             (map (\<lambda>(name, g). name @ '': "'' @
                     (case g of Some x \<Rightarrow> html_escape x | None \<Rightarrow> ''None'') @ ''"'')
                  (m_groupdict m))
      else []) @
     ''</div>'' \<and>
   line_block i line ms =
     (if ms \<noteq> []
      then ''<div class="match-result"><strong>Line '' @ str_nat i @ '':</strong> "'' @
           highlighted_line line ms @ ''"<br>'' @
           concat (map (match_detail line) (enumerate1 ms)) @ ''</div>''
      else ''<div class="no-match"><strong>Line '' @ str_nat i @ '':</strong> "'' @
           html_escape line @ ''" - No match</div>'') \<and>
   aggregate_block all_matches =
     (if all_matches \<noteq> []
      then ''<div class="group-info"><strong>All matches found:</strong> '' @
           str_nat (length all_matches) @ ''<br>Matches: '' @
           html_escape (take 200 (str_list all_matches)) @
           (if 200 < length (str_list all_matches) then ''...'' else []) @ ''</div>''
      else []) \<and>
   regex_error_block v =
     ''<div class="no-match"><strong>Regex Error:</strong> '' @ html_escape v @ ''</div>'' \<and>
   error_block v =
     ''<div class="no-match"><strong>Error:</strong> '' @ html_escape v @ ''</div>'' \<and>
   results_html (py_re (\<lambda>p. Inr rx)) pattern t =
     concat (map (\<lambda>(i, line). line_block i line (re_finditer rx line))
                 (enumerate1 (test_lines t))) @
     aggregate_block (re_findall rx t) \<and>
   results_html (py_re (\<lambda>p. Inl (ReError v))) pattern t = regex_error_block v \<and>
   results_html (py_re (\<lambda>p. Inl (OtherException v))) pattern t = error_block v\<close>
proof -
  obtain r where r: "results_html re pattern t = CHR ''<'' # r"
    using results_html_lt by blast
  have "html_escape (CHR ''<'' # r) \<noteq> CHR ''<'' # r"
    by (simp add: html_escape_def escape_char_def)
  with r have a: "html_escape (results_html re pattern t) \<noteq> results_html re pattern t"
    by simp
  have gi: \<open>group_item = (\<lambda>(j, g). str_nat j @ '': "'' @
      (case g of Some x \<Rightarrow> html_escape x | None \<Rightarrow> ''None'') @ ''"'')\<close>
    by (rule ext) (simp add: group_item_def escaped_group_value split: prod.splits)
  have ni: \<open>named_item = (\<lambda>(name, g). name @ '': "'' @
      (case g of Some x \<Rightarrow> html_escape x | None \<Rightarrow> ''None'') @ ''"'')\<close>
    by (rule ext) (simp add: named_item_def escaped_group_value split: prod.splits)
  have b: \<open>match_detail line (k, m) =
     ''<div style="margin-top: 4px; margin-left: 10px; font-size: 0.9em; border-left: 2px solid #888; padding-left: 8px;">'' @
     ''<strong>Match '' @ str_nat k @ '':</strong> "'' @
     html_escape (slice line (m_start m) (m_end m)) @ ''"'' @
     (if m_groups m \<noteq> []
      then ''<br><strong>Groups:</strong> '' @
           py_join '', ''
             (map (\<lambda>(j, g). str_nat j @ '': "'' @
                     (case g of Some x \<Rightarrow> html_escape x | None \<Rightarrow> ''None'') @ ''"'')
                  (enumerate1 (m_groups m)))
      else []) @
     (if m_groupdict m \<noteq> []
      then ''<br><strong>Named:</strong> '' @
           py_join '', ''
             (map (\<lambda>(name, g). name @ '': "'' @
                     (case g of Some x \<Rightarrow> html_escape x | None \<Rightarrow> ''None'') @ ''"'')
                  (m_groupdict m))
      else []) @
     ''</div>''\<close>
    unfolding match_detail_def gi ni group0_def by simp
  have c: \<open>line_block i line ms =
     (if ms \<noteq> []
      then ''<div class="match-result"><strong>Line '' @ str_nat i @ '':</strong> "'' @
           highlighted_line line ms @ ''"<br>'' @
           concat (map (match_detail line) (enumerate1 ms)) @ ''</div>''
      else ''<div class="no-match"><strong>Line '' @ str_nat i @ '':</strong> "'' @
           html_escape line @ ''" - No match</div>'')\<close>
    by (simp add: line_block_def)
  have d: \<open>aggregate_block all_matches =
     (if all_matches \<noteq> []
      then ''<div class="group-info"><strong>All matches found:</strong> '' @
           str_nat (length all_matches) @ ''<br>Matches: '' @
           html_escape (take 200 (str_list all_matches)) @
           (if 200 < length (str_list all_matches) then ''...'' else []) @ ''</div>''
      else [])\<close>
    by (simp add: aggregate_block_def)
  have e: \<open>regex_error_block v =
     ''<div class="no-match"><strong>Regex Error:</strong> '' @ html_escape v @ ''</div>''\<close>
    by (simp add: regex_error_block_def)
  have f: \<open>error_block v =
     ''<div class="no-match"><strong>Error:</strong> '' @ html_escape v @ ''</div>''\<close>
    by (simp add: error_block_def)
  have g: "results_html (py_re (\<lambda>p. Inr rx)) pattern t =
     concat (map (\<lambda>(i, line). line_block i line (re_finditer rx line))
                 (enumerate1 (test_lines t))) @
     aggregate_block (re_findall rx t)"
    by (rule results_html_py_re) (rule refl)
  have h: "results_html (py_re (\<lambda>p. Inl (ReError v))) pattern t = regex_error_block v"
    by (simp add: results_html_def try_body_def py_re_def)
  have h': "results_html (py_re (\<lambda>p. Inl (OtherException v))) pattern t = error_block v"
    by (simp add: results_html_def try_body_def py_re_def)
  show ?thesis
    by (intro conjI a html_escape_twice_iff html_escape_safe highlighted_line_closed
        b c d e f g h h')
qed

theorem escaping_once_not_idempotent_witness:
  \<open>results_html (py_re (\<lambda>p. Inr (literal ''<''))) ''<'' ''a<b'' =
     ''<div class="match-result"><strong>Line 1:</strong> "a'' @ span_open @ ''&lt;'' @
     span_close @ ''b"<br>'' @
     ''<div style="margin-top: 4px; margin-left: 10px; font-size: 0.9em; border-left: 2px solid #888; padding-left: 8px;">'' @
     ''<strong>Match 1:</strong> "&lt;"</div></div>'' @
     ''<div class="group-info"><strong>All matches found:</strong> 1<br>'' @
     ''Matches: [&#x27;&lt;&#x27;]</div>'' \<and>
   html_escape (results_html (py_re (\<lambda>p. Inr (literal ''<''))) ''<'' ''a<b'')
     \<noteq> results_html (py_re (\<lambda>p. Inr (literal ''<''))) ''<'' ''a<b'' \<and>
   html_escape (html_escape ''a<b'') \<noteq> html_escape ''a<b'' \<and>
   html_escape (html_escape ''ab'') = html_escape ''ab''\<close>
proof -
  let ?m = "\<lparr>m_start = 1, m_end = 2, m_groups = [], m_groupdict = []\<rparr>"
  note inst = escaping_once_not_idempotent [where re = "py_re (\<lambda>p. Inr (literal ''<''))"
      and rx = "literal ''<''" and pattern = "''<''" and t = "''a<b''"
      and line = "''a<b''" and ms = "[?m]" and m = ?m and k = 1 and i = 1
      and all_matches = "[Plain ''<'']"]
  from inst [where v = "''a<b''"]
  have a: "html_escape (results_html (py_re (\<lambda>p. Inr (literal ''<''))) ''<'' ''a<b'')
     \<noteq> results_html (py_re (\<lambda>p. Inr (literal ''<''))) ''<'' ''a<b''"
    and b: "(html_escape (html_escape ''a<b'') = html_escape ''a<b'')
        = (set ''a<b'' \<inter> markup_chars = {})"
    and res: "results_html (py_re (\<lambda>p. Inr (literal ''<''))) ''<'' ''a<b'' =
       concat (map (\<lambda>(i, line). line_block i line (re_finditer (literal ''<'') line))
                 (enumerate1 (test_lines ''a<b''))) @
       aggregate_block (re_findall (literal ''<'') ''a<b'')"
    by blast+
  from inst [where v = "''ab''"]
  have d: "(html_escape (html_escape ''ab'') = html_escape ''ab'')
        = (set ''ab'' \<inter> markup_chars = {})"
    by blast
  from b have b': "html_escape (html_escape ''a<b'') \<noteq> html_escape ''a<b''"
    by (simp add: markup_chars_def)
  from d have d': "html_escape (html_escape ''ab'') = html_escape ''ab''"
    by (simp add: markup_chars_def)
  have tl: "test_lines ''a<b'' = [''a<b'']"
    by (simp add: test_lines_def py_strip_def py_rstrip_def py_lstrip_def py_isspace_def)
  have fi: "re_finditer (literal ''<'') ''a<b'' = [?m]" by code_simp
  have fa: "re_findall (literal ''<'') ''a<b'' = [Plain ''<'']" by code_simp
  have en: "enumerate1 [''a<b''] = [(Suc 0, ''a<b'')]"
    by (simp add: enumerate1_def)
  have ev: \<open>line_block (Suc 0) ''a<b'' [?m] @ aggregate_block [Plain ''<''] =
     ''<div class="match-result"><strong>Line 1:</strong> "a'' @ span_open @ ''&lt;'' @
     span_close @ ''b"<br>'' @
     ''<div style="margin-top: 4px; margin-left: 10px; font-size: 0.9em; border-left: 2px solid #888; padding-left: 8px;">'' @
     ''<strong>Match 1:</strong> "&lt;"</div></div>'' @
     ''<div class="group-info"><strong>All matches found:</strong> 1<br>'' @
     ''Matches: [&#x27;&lt;&#x27;]</div>''\<close>
    by code_simp
  have "results_html (py_re (\<lambda>p. Inr (literal ''<''))) ''<'' ''a<b'' =
      line_block (Suc 0) ''a<b'' [?m] @ aggregate_block [Plain ''<'']"
    unfolding res tl fa en by (simp add: fi)
  then have r': \<open>results_html (py_re (\<lambda>p. Inr (literal ''<''))) ''<'' ''a<b'' =
     ''<div class="match-result"><strong>Line 1:</strong> "a'' @ span_open @ ''&lt;'' @
     span_close @ ''b"<br>'' @
     ''<div style="margin-top: 4px; margin-left: 10px; font-size: 0.9em; border-left: 2px solid #888; padding-left: 8px;">'' @
     ''<strong>Match 1:</strong> "&lt;"</div></div>'' @
     ''<div class="group-info"><strong>All matches found:</strong> 1<br>'' @
     ''Matches: [&#x27;&lt;&#x27;]</div>''\<close>
    by (simp only: ev)
  from r' a b' d' show ?thesis by blast
qed

text \<open>
  The claim as the spec words it, with the report unchanged under the escape function,
  fails on the report of the pattern \<open>x\<close> on the text \<open>abc\<close>, and the escape
  function changes the escaped form of \<open>a&b\<close>.
\<close>

theorem escaping_idempotent_counterexample:
  "html_escape (results_html (py_re (\<lambda>p. Inr (literal p))) ''x'' ''abc'')
     \<noteq> results_html (py_re (\<lambda>p. Inr (literal p))) ''x'' ''abc'' \<and>
   html_escape (html_escape ''a&b'') \<noteq> html_escape ''a&b''"
  by code_simp

end
